theory Spec2Isabelle
  imports Main "HOL-Library.Word"
begin

section \<open>Data model of \<^verbatim>\<open>cache.go\<close>\<close>

text \<open>
  A cached value is a Go \<^verbatim>\<open>interface{}\<close>. The constructors cover the dynamic types the
  package and its tests store: the nil interface, strings (\<^verbatim>\<open>Close\<close> stores the string
  \<^verbatim>\<open>""\<close>), integers and booleans; \<open>VOther\<close> stands for any other dynamic value,
  told apart by a tag.
\<close>

datatype val = VNil | VString string | VInt int | VBool bool | VOther nat

text \<open>\<^verbatim>\<open>time.Duration\<close> is an \<^verbatim>\<open>int64\<close>; \<open>sint\<close> reads its signed value.\<close>

type_synonym Duration = "64 word"

text \<open>The contents of the \<^verbatim>\<open>sync.Map\<close> field \<^verbatim>\<open>data\<close>.\<close>

type_synonym store = "string \<rightharpoonup> val"

text \<open>
  An update function is a host closure \<^verbatim>\<open>func() (interface{}, error)\<close>. The closures of
  the package's tests read the cache they are registered in, so the model hands the
  closure the current contents of \<^verbatim>\<open>data\<close>. \<open>Inl msg\<close> is a non-nil error whose
  \<^verbatim>\<open>Error()\<close> text is \<open>msg\<close> (the returned value is then ignored by the caller),
  \<open>Inr v\<close> is the value returned together with a nil error.
\<close>

type_synonym updateFunc = "store \<Rightarrow> string + val"

record Config =
  UpdateInterval :: "Duration option"

text \<open>
  The fields \<open>data\<close>, \<open>config\<close> and \<open>UpdateFuncs\<close> are those of the struct. The
  unbuffered channel \<^verbatim>\<open>close\<close> carries no data; what matters about it is who receives
  from it. The only receive is the \<^verbatim>\<open>case <-dc.close\<close> of the goroutine that
  \<^verbatim>\<open>StartUpdates\<close> spawns, so \<open>closeReceivers\<close> counts the goroutines of this cache
  that are alive in their \<^verbatim>\<open>select\<close> loop. \<open>errorChannel\<close> is the sequence of errors
  sent on the host's channel (the host is taken to drain it). The last two fields are
  instrumentation: \<open>invoked\<close> lists the keys whose update function has been called, in
  call order, and \<open>stored\<close> lists the keys passed to \<^verbatim>\<open>dc.data.Store\<close>, in call order.
\<close>

record Cache =
  data :: store
  config :: Config
  UpdateFuncs :: "string \<rightharpoonup> updateFunc"
  closeReceivers :: nat
  errorChannel :: "string list"
  invoked :: "string list"
  stored :: "string list"

text \<open>
  Go leaves the iteration order of \<^verbatim>\<open>range\<close> over a map unspecified and randomises it.
  Each function with such a loop takes the order the runtime picked as an argument: a
  list holding every key of the map once.
\<close>

definition range_order :: "(string \<rightharpoonup> 'a) \<Rightarrow> string list \<Rightarrow> bool" where
  "range_order m order \<longleftrightarrow> distinct order \<and> set order = dom m"

section \<open>Operations\<close>

definition NewCache :: "Config \<Rightarrow> string + Cache" where
  "NewCache cfg =
     (let fresh = \<lparr>data = Map.empty, config = cfg, UpdateFuncs = Map.empty,
                   closeReceivers = 0, errorChannel = [], invoked = [], stored = []\<rparr>
      in case UpdateInterval cfg of
           Some d \<Rightarrow>
             if sint d \<le> 0
             then Inl ''cache update interval duration is less than or equal to 0''
             else Inr fresh
         | None \<Rightarrow> Inr fresh)"

text \<open>\<^verbatim>\<open>sync.Map.Load\<close> and \<^verbatim>\<open>sync.Map.Store\<close> on the field \<^verbatim>\<open>data\<close>.\<close>

definition Load :: "Cache \<Rightarrow> string \<Rightarrow> val \<times> bool" where
  "Load dc key = (case data dc key of None \<Rightarrow> (VNil, False) | Some v \<Rightarrow> (v, True))"

definition Store :: "Cache \<Rightarrow> string \<Rightarrow> val \<Rightarrow> Cache" where
  "Store dc key v = dc\<lparr>data := (data dc)(key \<mapsto> v), stored := stored dc @ [key]\<rparr>"

definition Get :: "Cache \<Rightarrow> string \<Rightarrow> val \<times> bool" where
  "Get dc key = Load dc key"

definition Set :: "Cache \<Rightarrow> string \<Rightarrow> val \<Rightarrow> Cache" where
  "Set dc key v = Store dc key v"

definition AddUpdateFunc :: "Cache \<Rightarrow> string \<Rightarrow> updateFunc \<Rightarrow> Cache" where
  "AddUpdateFunc dc key updateFunc = dc\<lparr>UpdateFuncs := (UpdateFuncs dc)(key \<mapsto> updateFunc)\<rparr>"

text \<open>
  \<^verbatim>\<open>UpdateContent\<close>: the loop over \<^verbatim>\<open>dc.UpdateFuncs\<close> in the given order. The result is
  the returned error (\<open>None\<close> for nil) and the cache as the call leaves it. A
  \<^verbatim>\<open>range\<close> only yields keys of the map, so a key of the list that the map lacks is
  passed over.
\<close>

definition updateError :: "string \<Rightarrow> string \<Rightarrow> string" where
  "updateError key err = ''failed to update search cache for '' @ key @ ''. error: '' @ err"

fun UpdateContent :: "Cache \<Rightarrow> string list \<Rightarrow> string option \<times> Cache" where
  "UpdateContent dc [] = (None, dc)"
| "UpdateContent dc (key # rest) =
     (case UpdateFuncs dc key of
        None \<Rightarrow> UpdateContent dc rest
      | Some updateFunc \<Rightarrow>
          (case updateFunc (data dc) of
             Inl err \<Rightarrow> (Some (updateError key err), dc\<lparr>invoked := invoked dc @ [key]\<rparr>)
           | Inr updatedContent \<Rightarrow>
               UpdateContent (Set (dc\<lparr>invoked := invoked dc @ [key]\<rparr>) key updatedContent) rest))"

text \<open>
  \<^verbatim>\<open>Close\<close>. With an interval configured the first statement is the send
  \<^verbatim>\<open>dc.close <- struct{}{}\<close> on the unbuffered channel. It completes when a goroutine of
  \<^verbatim>\<open>StartUpdates\<close> takes it (that goroutine then returns); with no such goroutine alive
  the send never completes and the statements after it never run: the result is
  \<open>None\<close>. Otherwise the result is the cache as the call leaves it.
\<close>

fun Close_range :: "Cache \<Rightarrow> string list \<Rightarrow> Cache" where
  "Close_range dc [] = dc"
| "Close_range dc (key # rest) = Close_range (Store dc key (VString '''')) rest"

definition Close :: "Cache \<Rightarrow> string list \<Rightarrow> Cache option" where
  "Close dc order =
     (case UpdateInterval (config dc) of
        None \<Rightarrow> Some dc
      | Some d \<Rightarrow>
          if closeReceivers dc = 0 then None
          else Some ((Close_range (dc\<lparr>closeReceivers := closeReceivers dc - 1\<rparr>) order)
                       \<lparr>UpdateFuncs := Map.empty\<rparr>))"

text \<open>
  \<^verbatim>\<open>StartUpdates\<close> returns at once in every branch; with a registry that is not empty
  and an interval configured it leaves one more goroutine behind.
\<close>

definition StartUpdates :: "Cache \<Rightarrow> Cache" where
  "StartUpdates dc =
     (if UpdateFuncs dc = Map.empty then dc
      else case UpdateInterval (config dc) of
             Some d \<Rightarrow> dc\<lparr>closeReceivers := Suc (closeReceivers dc)\<rparr>
           | None \<Rightarrow> dc)"

text \<open>
  What the goroutine does when it leaves its \<^verbatim>\<open>select\<close>: on a tick it runs one cycle
  and sends a failure to the error channel, and goes on; on cancellation of its context
  it returns.
\<close>

definition Tick :: "Cache \<Rightarrow> string list \<Rightarrow> Cache" where
  "Tick dc order =
     (case UpdateContent dc order of
        (Some err, dc') \<Rightarrow> dc'\<lparr>errorChannel := errorChannel dc' @ [err]\<rparr>
      | (None, dc') \<Rightarrow> dc')"

definition CtxDone :: "Cache \<Rightarrow> Cache" where
  "CtxDone dc = dc\<lparr>closeReceivers := closeReceivers dc - 1\<rparr>"

text \<open>
  \<^verbatim>\<open>StartAndManageUpdates\<close>; \<open>order\<close> is the iteration order of the loop in
  \<^verbatim>\<open>UpdateContent\<close>, \<open>corder\<close> the one of the loop in \<^verbatim>\<open>Close\<close>.
\<close>

definition StartAndManageUpdates :: "Cache \<Rightarrow> string list \<Rightarrow> string list \<Rightarrow> Cache option" where
  "StartAndManageUpdates dc order corder =
     (case UpdateContent dc order of
        (Some err, dc') \<Rightarrow> Close (dc'\<lparr>errorChannel := errorChannel dc' @ [err]\<rparr>) corder
      | (None, dc') \<Rightarrow> Some (StartUpdates dc'))"

text \<open>
  The caches a host can hold: the result of \<^verbatim>\<open>NewCache\<close>, changed by calls of the
  methods and by the steps of the goroutines.
\<close>

inductive reachable :: "Cache \<Rightarrow> bool" where
  r_new: "NewCache cfg = Inr dc \<Longrightarrow> reachable dc"
| r_set: "reachable dc \<Longrightarrow> reachable (Set dc key v)"
| r_add: "reachable dc \<Longrightarrow> reachable (AddUpdateFunc dc key updateFunc)"
| r_update: "reachable dc \<Longrightarrow> range_order (UpdateFuncs dc) order \<Longrightarrow>
     reachable (snd (UpdateContent dc order))"
| r_close: "reachable dc \<Longrightarrow> range_order (UpdateFuncs dc) order \<Longrightarrow>
     Close dc order = Some dc' \<Longrightarrow> reachable dc'"
| r_start: "reachable dc \<Longrightarrow> reachable (StartUpdates dc)"
| r_manage: "reachable dc \<Longrightarrow> range_order (UpdateFuncs dc) order \<Longrightarrow>
     range_order (UpdateFuncs (snd (UpdateContent dc order))) corder \<Longrightarrow>
     StartAndManageUpdates dc order corder = Some dc' \<Longrightarrow> reachable dc'"
| r_tick: "reachable dc \<Longrightarrow> 0 < closeReceivers dc \<Longrightarrow> range_order (UpdateFuncs dc) order \<Longrightarrow>
     reachable (Tick dc order)"
| r_ctx: "reachable dc \<Longrightarrow> 0 < closeReceivers dc \<Longrightarrow> reachable (CtxDone dc)"

section \<open>The fixtures of \<^verbatim>\<open>cache_test.go\<close>\<close>

text \<open>
  \<^verbatim>\<open>getTestCache\<close> of the tests, without its \<^verbatim>\<open>float64\<close> entry: a cache whose
  \<^verbatim>\<open>data\<close> is filled by hand and whose update functions read the cache to tell their
  first call from the later ones. \<open>updError\<close> is the failing update function of
  \<^verbatim>\<open>TestUpdateContent\<close>, here registered beside the others.
\<close>

definition noInterval :: Config where
  "noInterval = \<lparr>UpdateInterval = None\<rparr>"

definition interval20ms :: Config where
  "interval20ms = \<lparr>UpdateInterval = Some 20000000\<rparr>"

definition updString :: updateFunc where
  "updString s = (if s ''string'' = Some (VString ''test'') then Inr (VString ''test2'')
                  else Inr (VString ''test3''))"

definition updInt :: updateFunc where
  "updInt s = (if s ''int'' = Some (VInt 1) then Inr (VInt 2) else Inr (VInt 3))"

definition updBool :: updateFunc where
  "updBool s = (if s ''bool'' = Some (VBool False) then Inr (VBool True) else Inr (VBool False))"

definition updError :: updateFunc where
  "updError s = Inl ''unexpected error''"

definition getTestCache :: "Config \<Rightarrow> Cache" where
  "getTestCache cfg =
     \<lparr>data = [''string'' \<mapsto> VString ''test'', ''int'' \<mapsto> VInt 1, ''bool'' \<mapsto> VBool False],
      config = cfg,
      UpdateFuncs = [''string'' \<mapsto> updString, ''int'' \<mapsto> updInt, ''bool'' \<mapsto> updBool],
      closeReceivers = 0, errorChannel = [], invoked = [],
      stored = [''string'', ''int'', ''bool'']\<rparr>"

definition errorTestCache :: "Config \<Rightarrow> Cache" where
  "errorTestCache cfg = AddUpdateFunc (getTestCache cfg) ''error_update_func'' updError"

definition noFuncsTestCache :: "Config \<Rightarrow> Cache" where
  "noFuncsTestCache cfg = (getTestCache cfg)\<lparr>UpdateFuncs := Map.empty\<rparr>"

text \<open>
  The test cache with one more registered key that was never written and one stored key
  that is not registered, after \<^verbatim>\<open>StartUpdates\<close>: its goroutine is running.
\<close>

definition startedTestCache :: Cache where
  "startedTestCache =
     StartUpdates (Set (AddUpdateFunc (getTestCache interval20ms) ''fresh_key'' updInt)
                       ''unregistered'' (VInt 7))"

section \<open>Construction\<close>

text \<open>
  C6. A configuration whose interval is present and at most zero makes \<^verbatim>\<open>NewCache\<close>
  return the configuration error and no cache; a configuration with no interval or
  with an interval above zero makes it return a cache (empty, with that configuration)
  and no error.
\<close>

theorem NewCache_checks_interval:
  "(\<forall>d. UpdateInterval cfg = Some d \<and> sint d \<le> 0 \<longrightarrow>
      NewCache cfg = Inl ''cache update interval duration is less than or equal to 0'') \<and>
   (UpdateInterval cfg = None \<or> (\<exists>d. UpdateInterval cfg = Some d \<and> 0 < sint d) \<longrightarrow>
      NewCache cfg = Inr \<lparr>data = Map.empty, config = cfg, UpdateFuncs = Map.empty,
                          closeReceivers = 0, errorChannel = [], invoked = [], stored = []\<rparr>)"
  by (auto simp: NewCache_def)

theorem NewCache_checks_interval_witness:
  "NewCache \<lparr>UpdateInterval = Some 0\<rparr> =
     Inl ''cache update interval duration is less than or equal to 0'' \<and>
   NewCache \<lparr>UpdateInterval = Some (- 5)\<rparr> =
     Inl ''cache update interval duration is less than or equal to 0'' \<and>
   NewCache \<lparr>UpdateInterval = None\<rparr> =
     Inr \<lparr>data = Map.empty, config = \<lparr>UpdateInterval = None\<rparr>, UpdateFuncs = Map.empty,
          closeReceivers = 0, errorChannel = [], invoked = [], stored = []\<rparr> \<and>
   NewCache \<lparr>UpdateInterval = Some 20000000\<rparr> =
     Inr \<lparr>data = Map.empty, config = \<lparr>UpdateInterval = Some 20000000\<rparr>, UpdateFuncs = Map.empty,
          closeReceivers = 0, errorChannel = [], invoked = [], stored = []\<rparr>"
  using NewCache_checks_interval [of "\<lparr>UpdateInterval = Some 0\<rparr>"]
        NewCache_checks_interval [of "\<lparr>UpdateInterval = Some (- 5)\<rparr>"]
        NewCache_checks_interval [of "\<lparr>UpdateInterval = None\<rparr>"]
        NewCache_checks_interval [of "\<lparr>UpdateInterval = Some 20000000\<rparr>"]
  by simp

section \<open>The refresh cycle\<close>

text \<open>Facts about the loop of \<^verbatim>\<open>UpdateContent\<close>.\<close>

lemma UpdateContent_append:
  "UpdateContent dc (xs @ ys) =
     (case UpdateContent dc xs of
        (Some e, dc') \<Rightarrow> (Some e, dc')
      | (None, dc') \<Rightarrow> UpdateContent dc' ys)"
  by (induction xs arbitrary: dc) (auto split: option.splits sum.splits)

lemma UpdateContent_UpdateFuncs [simp]:
  "UpdateFuncs (snd (UpdateContent dc xs)) = UpdateFuncs dc"
  by (induction xs arbitrary: dc) (auto simp: Set_def Store_def split: option.splits sum.splits)

lemma UpdateContent_config [simp]:
  "config (snd (UpdateContent dc xs)) = config dc"
  by (induction xs arbitrary: dc) (auto simp: Set_def Store_def split: option.splits sum.splits)

lemma UpdateContent_closeReceivers [simp]:
  "closeReceivers (snd (UpdateContent dc xs)) = closeReceivers dc"
  by (induction xs arbitrary: dc) (auto simp: Set_def Store_def split: option.splits sum.splits)

lemma UpdateContent_errorChannel [simp]:
  "errorChannel (snd (UpdateContent dc xs)) = errorChannel dc"
  by (induction xs arbitrary: dc) (auto simp: Set_def Store_def split: option.splits sum.splits)

lemma UpdateContent_data_frame:
  "k \<notin> set xs \<Longrightarrow> data (snd (UpdateContent dc xs)) k = data dc k"
  by (induction xs arbitrary: dc) (auto simp: Set_def Store_def split: option.splits sum.splits)

lemma UpdateContent_ok_logs:
  "set xs \<subseteq> dom (UpdateFuncs dc) \<Longrightarrow> fst (UpdateContent dc xs) = None \<Longrightarrow>
     invoked (snd (UpdateContent dc xs)) = invoked dc @ xs \<and>
     stored (snd (UpdateContent dc xs)) = stored dc @ xs"
proof (induction xs arbitrary: dc)
  case Nil
  then show ?case by simp
next
  case (Cons k ks)
  from Cons.prems(1) obtain f where f: "UpdateFuncs dc k = Some f" by auto
  from Cons.prems(2) f obtain v where v: "f (data dc) = Inr v"
    by (cases "f (data dc)") auto
  let ?dc = "Set (dc\<lparr>invoked := invoked dc @ [k]\<rparr>) k v"
  have step: "UpdateContent dc (k # ks) = UpdateContent ?dc ks" using f v by simp
  have "set ks \<subseteq> dom (UpdateFuncs ?dc)" using Cons.prems(1) by (auto simp: Set_def Store_def)
  moreover have "fst (UpdateContent ?dc ks) = None" using Cons.prems(2) step by simp
  ultimately have "invoked (snd (UpdateContent ?dc ks)) = invoked ?dc @ ks \<and>
     stored (snd (UpdateContent ?dc ks)) = stored ?dc @ ks" by (rule Cons.IH)
  then show ?case using step by (simp add: Set_def Store_def)
qed

lemma UpdateContent_prefix_ok:
  "fst (UpdateContent dc (xs @ ys)) = None \<Longrightarrow> fst (UpdateContent dc xs) = None"
  by (auto simp: UpdateContent_append split: prod.splits option.splits)

lemma UpdateContent_ok_values:
  assumes "distinct xs" and "set xs \<subseteq> dom (UpdateFuncs dc)"
    and "fst (UpdateContent dc xs) = None" and "i < length xs"
  shows "\<exists>f v. UpdateFuncs dc (xs ! i) = Some f \<and>
           f (data (snd (UpdateContent dc (take i xs)))) = Inr v \<and>
           data (snd (UpdateContent dc xs)) (xs ! i) = Some v"
proof -
  let ?k = "xs ! i"
  have split: "xs = take i xs @ ?k # drop (Suc i) xs"
    using assms(4) by (rule id_take_nth_drop)
  obtain dcA where A: "UpdateContent dc (take i xs) = (None, dcA)"
    using UpdateContent_prefix_ok [of dc "take i xs" "drop i xs"] assms(3)
    by (cases "UpdateContent dc (take i xs)") auto
  from assms(2,4) obtain f where f: "UpdateFuncs dc ?k = Some f"
    by (meson domD nth_mem subsetD)
  have fA: "UpdateFuncs dcA ?k = Some f"
    using f UpdateContent_UpdateFuncs [of dc "take i xs"] A by simp
  have run: "UpdateContent dc xs = UpdateContent dcA (?k # drop (Suc i) xs)"
    using UpdateContent_append [of dc "take i xs" "?k # drop (Suc i) xs"] A split by simp
  obtain v where v: "f (data dcA) = Inr v"
    using assms(3) run fA by (cases "f (data dcA)") auto
  let ?dcB = "Set (dcA\<lparr>invoked := invoked dcA @ [?k]\<rparr>) ?k v"
  have run2: "UpdateContent dc xs = UpdateContent ?dcB (drop (Suc i) xs)"
    using run fA v by simp
  have "?k \<notin> set (drop (Suc i) xs)"
    using assms(1) split by (metis distinct_append distinct.simps(2) not_distinct_conv_prefix)
  then have "data (snd (UpdateContent ?dcB (drop (Suc i) xs))) ?k = data ?dcB ?k"
    by (rule UpdateContent_data_frame)
  then have "data (snd (UpdateContent dc xs)) ?k = Some v"
    using run2 by (simp add: Set_def Store_def)
  then show ?thesis using f v A by auto
qed

lemma UpdateContent_failure_after_prefix:
  assumes "range_order (UpdateFuncs dc) order"
    and "order = before @ key # rest"
    and "UpdateContent dc before = (None, dc1)"
    and "UpdateFuncs dc key = Some f"
    and "f (data dc1) = Inl cause"
  shows "\<exists>dc'. UpdateContent dc order =
            (Some (''failed to update search cache for '' @ key @ ''. error: '' @ cause), dc') \<and>
          invoked dc' = invoked dc @ before @ [key] \<and>
          stored dc' = stored dc @ before \<and>
          data dc' = data dc1 \<and>
          (\<forall>i<length before. \<exists>g v. UpdateFuncs dc (before ! i) = Some g \<and>
             g (data (snd (UpdateContent dc (take i before)))) = Inr v \<and>
             data dc' (before ! i) = Some v)"
proof -
  let ?dc' = "dc1\<lparr>invoked := invoked dc1 @ [key]\<rparr>"
  have f1: "UpdateFuncs dc1 key = Some f"
    using UpdateContent_UpdateFuncs [of dc before] assms(3,4) by simp
  have run: "UpdateContent dc order = (Some (updateError key cause), ?dc')"
    using assms(2,3,5) f1 by (simp add: UpdateContent_append)
  have sub: "set before \<subseteq> dom (UpdateFuncs dc)" and dist: "distinct before"
    using assms(1,2) by (auto simp: range_order_def)
  have ok: "fst (UpdateContent dc before) = None" using assms(3) by simp
  have logs: "invoked dc1 = invoked dc @ before" "stored dc1 = stored dc @ before"
    using UpdateContent_ok_logs [OF sub ok] assms(3) by simp_all
  have vals: "\<forall>i<length before. \<exists>g v. UpdateFuncs dc (before ! i) = Some g \<and>
             g (data (snd (UpdateContent dc (take i before)))) = Inr v \<and>
             data ?dc' (before ! i) = Some v"
    using UpdateContent_ok_values [OF dist sub ok] assms(3) by simp
  show ?thesis
    using run logs vals by (simp add: updateError_def)
qed

lemma UpdateContent_all_succeed:
  "\<forall>k\<in>set xs. \<forall>g. UpdateFuncs dc k = Some g \<longrightarrow> (\<forall>s. \<exists>v. g s = Inr v) \<Longrightarrow>
     fst (UpdateContent dc xs) = None"
proof (induction xs arbitrary: dc)
  case Nil
  then show ?case by simp
next
  case (Cons k ks)
  show ?case
  proof (cases "UpdateFuncs dc k")
    case None
    then show ?thesis using Cons by simp
  next
    case (Some g)
    then obtain v where v: "g (data dc) = Inr v" using Cons.prems by fastforce
    let ?dc = "Set (dc\<lparr>invoked := invoked dc @ [k]\<rparr>) k v"
    have "UpdateFuncs ?dc = UpdateFuncs dc" by (simp add: Set_def Store_def)
    then have "fst (UpdateContent ?dc ks) = None"
      using Cons.prems by (intro Cons.IH) simp
    then show ?thesis using Some v by simp
  qed
qed

lemma distinct_count_list_one:
  "distinct xs \<Longrightarrow> x \<in> set xs \<Longrightarrow> count_list xs x = 1"
  by (induction xs) auto



text \<open>
  C3 (as amended). Let the registry hold one update function that fails, under \<open>key\<close>,
  and let all its other update functions succeed. Then \<^verbatim>\<open>UpdateContent\<close> returns the
  error naming \<open>key\<close>; the keys the loop visited before \<open>key\<close> hold the values their
  functions returned; the keys after \<open>key\<close> in the loop's order are not updated in that
  call: their functions are not called and their stored values are as before.
\<close>

theorem UpdateContent_one_failing_function:
  assumes "range_order (UpdateFuncs dc) order"
    and "order = before @ key # rest"
    and "UpdateFuncs dc key = Some f"
    and "f (data (snd (UpdateContent dc before))) = Inl cause"
    and "\<forall>k g. k \<noteq> key \<and> UpdateFuncs dc k = Some g \<longrightarrow> (\<forall>s. \<exists>v. g s = Inr v)"
  shows "fst (UpdateContent dc order) =
           Some (''failed to update search cache for '' @ key @ ''. error: '' @ cause) \<and>
         (\<forall>i<length before. \<exists>g v. UpdateFuncs dc (before ! i) = Some g \<and>
            g (data (snd (UpdateContent dc (take i before)))) = Inr v \<and>
            data (snd (UpdateContent dc order)) (before ! i) = Some v) \<and>
         (\<forall>k\<in>set rest. data (snd (UpdateContent dc order)) k = data dc k \<and>
            k \<notin> set (drop (length (invoked dc)) (invoked (snd (UpdateContent dc order)))))"
proof -
  have dist: "distinct order" using assms(1) by (simp add: range_order_def)
  then have notin: "key \<notin> set before" "\<forall>k\<in>set rest. k \<notin> set before \<and> k \<noteq> key"
    using assms(2) by auto
  have "\<forall>k\<in>set before. \<forall>g. UpdateFuncs dc k = Some g \<longrightarrow> (\<forall>s. \<exists>v. g s = Inr v)"
    using assms(5) notin(1) by metis
  then have ok: "fst (UpdateContent dc before) = None" by (rule UpdateContent_all_succeed)
  then have pre: "UpdateContent dc before = (None, snd (UpdateContent dc before))"
    by (metis prod.collapse)
  from UpdateContent_failure_after_prefix [OF assms(1,2) pre assms(3,4)]
  obtain dc' where run: "UpdateContent dc order =
            (Some (''failed to update search cache for '' @ key @ ''. error: '' @ cause), dc')"
    and inv: "invoked dc' = invoked dc @ before @ [key]"
    and dat: "data dc' = data (snd (UpdateContent dc before))"
    and vals: "\<forall>i<length before. \<exists>g v. UpdateFuncs dc (before ! i) = Some g \<and>
             g (data (snd (UpdateContent dc (take i before)))) = Inr v \<and>
             data dc' (before ! i) = Some v"
    by blast
  have frame: "\<forall>k\<in>set rest. data dc' k = data dc k"
    using dat notin(2) by (simp add: UpdateContent_data_frame)
  have "\<forall>k\<in>set rest. k \<notin> set (drop (length (invoked dc)) (invoked dc'))"
    using inv notin(2) by simp
  then show ?thesis using run vals frame by simp
qed

theorem UpdateContent_one_failing_function_witness:
  "range_order (UpdateFuncs (errorTestCache interval20ms))
     [''string'', ''error_update_func'', ''int'', ''bool''] \<and>
   fst (UpdateContent (errorTestCache interval20ms)
          [''string'', ''error_update_func'', ''int'', ''bool'']) =
     Some ''failed to update search cache for error_update_func. error: unexpected error'' \<and>
   data (snd (UpdateContent (errorTestCache interval20ms)
          [''string'', ''error_update_func'', ''int'', ''bool''])) ''string'' = Some (VString ''test2'') \<and>
   data (snd (UpdateContent (errorTestCache interval20ms)
          [''string'', ''error_update_func'', ''int'', ''bool''])) ''int'' = Some (VInt 1) \<and>
   data (snd (UpdateContent (errorTestCache interval20ms)
          [''string'', ''error_update_func'', ''int'', ''bool''])) ''bool'' = Some (VBool False)"
proof -
  note fx = errorTestCache_def getTestCache_def AddUpdateFunc_def Set_def Store_def updInt_def
    updString_def updBool_def updError_def updateError_def interval20ms_def
  let ?dc = "errorTestCache interval20ms"
  let ?order = "[''string'', ''error_update_func'', ''int'', ''bool'']"
  have h1: "range_order (UpdateFuncs ?dc) ?order"
    by (auto simp: range_order_def fx)
  have h2: "?order = [''string''] @ ''error_update_func'' # [''int'', ''bool'']" by simp
  have h3: "UpdateFuncs ?dc ''error_update_func'' = Some updError" by (simp add: fx)
  have h4: "updError (data (snd (UpdateContent ?dc [''string'']))) = Inl ''unexpected error''"
    by (simp add: updError_def)
  have h5: "\<forall>k g. k \<noteq> ''error_update_func'' \<and> UpdateFuncs ?dc k = Some g \<longrightarrow>
              (\<forall>s. \<exists>v. g s = Inr v)"
    by (auto simp: fx split: if_splits)
  have d0: "data ?dc ''int'' = Some (VInt 1)" "data ?dc ''bool'' = Some (VBool False)"
    by (simp_all add: fx)
  have v0: "updString (data (snd (UpdateContent ?dc (take 0 [''string''])))) = Inr (VString ''test2'')"
    by (simp add: fx)
  have g0: "UpdateFuncs ?dc ''string'' = Some updString" by (simp add: fx)
  from UpdateContent_one_failing_function [OF h1 h2 h3 h4 h5]
  have res: "fst (UpdateContent ?dc ?order) =
           Some (''failed to update search cache for '' @ ''error_update_func'' @ ''. error: '' @ ''unexpected error'')"
    and vals: "\<forall>i<length [''string'']. \<exists>g v. UpdateFuncs ?dc ([''string''] ! i) = Some g \<and>
            g (data (snd (UpdateContent ?dc (take i [''string''])))) = Inr v \<and>
            data (snd (UpdateContent ?dc ?order)) ([''string''] ! i) = Some v"
    and rest: "\<forall>k\<in>set [''int'', ''bool'']. data (snd (UpdateContent ?dc ?order)) k = data ?dc k \<and>
            k \<notin> set (drop (length (invoked ?dc)) (invoked (snd (UpdateContent ?dc ?order))))"
    by blast+
  from vals have "\<exists>g v. UpdateFuncs ?dc ''string'' = Some g \<and>
            g (data (snd (UpdateContent ?dc (take 0 [''string''])))) = Inr v \<and>
            data (snd (UpdateContent ?dc ?order)) ''string'' = Some v" by simp
  then have s: "data (snd (UpdateContent ?dc ?order)) ''string'' = Some (VString ''test2'')"
    using g0 v0 by auto
  from rest d0 have r: "data (snd (UpdateContent ?dc ?order)) ''int'' = Some (VInt 1)"
     "data (snd (UpdateContent ?dc ?order)) ''bool'' = Some (VBool False)" by simp_all
  show ?thesis using h1 res s r by simp
qed

text \<open>
  C3 as first stated fails: when the loop visits \<^verbatim>\<open>error_update_func\<close> first, the key
  \<^verbatim>\<open>int\<close>, whose function would have returned 2, still holds 1 after the call.
\<close>

theorem UpdateContent_one_failing_function_counterexample:
  "range_order (UpdateFuncs (errorTestCache interval20ms))
     [''error_update_func'', ''string'', ''int'', ''bool''] \<and>
   UpdateFuncs (errorTestCache interval20ms) ''int'' = Some updInt \<and>
   updInt (data (errorTestCache interval20ms)) = Inr (VInt 2) \<and>
   fst (UpdateContent (errorTestCache interval20ms)
          [''error_update_func'', ''string'', ''int'', ''bool'']) =
     Some ''failed to update search cache for error_update_func. error: unexpected error'' \<and>
   invoked (snd (UpdateContent (errorTestCache interval20ms)
          [''error_update_func'', ''string'', ''int'', ''bool''])) = [''error_update_func''] \<and>
   data (snd (UpdateContent (errorTestCache interval20ms)
          [''error_update_func'', ''string'', ''int'', ''bool''])) ''int'' = Some (VInt 1)"
  by (auto simp: range_order_def errorTestCache_def getTestCache_def AddUpdateFunc_def Set_def
    Store_def updInt_def updString_def updBool_def updError_def updateError_def interval20ms_def)

section \<open>Starting\<close>

lemma StartUpdates_None: "UpdateInterval (config dc) = None \<Longrightarrow> StartUpdates dc = dc"
  by (simp add: StartUpdates_def)

text \<open>
  C1 (as amended). On a cache with no update interval and a registry that is not empty,
  \<^verbatim>\<open>StartUpdates\<close> changes nothing: it calls no update function, writes nothing to the
  store and leaves no goroutine behind. The one refresh cycle of such a cache is run by
  \<^verbatim>\<open>StartAndManageUpdates\<close>: when every registered update function succeeds, it calls
  each of them exactly once, leaves each key holding the value its function returned and
  every other key as it was, sends nothing to the error channel, and leaves no goroutine
  behind.
\<close>

theorem StartUpdates_without_interval:
  assumes "UpdateInterval (config dc) = None" and "UpdateFuncs dc \<noteq> Map.empty"
  shows "StartUpdates dc = dc \<and>
    (range_order (UpdateFuncs dc) order \<and>
     (\<forall>k g. UpdateFuncs dc k = Some g \<longrightarrow> (\<forall>s. \<exists>v. g s = Inr v)) \<longrightarrow>
      (\<exists>dc'. StartAndManageUpdates dc order corder = Some dc' \<and>
         invoked dc' = invoked dc @ order \<and>
         (\<forall>k\<in>dom (UpdateFuncs dc). count_list (invoked dc') k = count_list (invoked dc) k + 1) \<and>
         stored dc' = stored dc @ order \<and>
         (\<forall>i<length order. \<exists>g v. UpdateFuncs dc (order ! i) = Some g \<and>
            g (data (snd (UpdateContent dc (take i order)))) = Inr v \<and>
            data dc' (order ! i) = Some v) \<and>
         (\<forall>k. k \<notin> dom (UpdateFuncs dc) \<longrightarrow> data dc' k = data dc k) \<and>
         closeReceivers dc' = closeReceivers dc \<and>
         errorChannel dc' = errorChannel dc \<and>
         UpdateFuncs dc' = UpdateFuncs dc))"
proof (intro conjI impI)
  show "StartUpdates dc = dc" using assms(1) by (rule StartUpdates_None)
next
  assume h: "range_order (UpdateFuncs dc) order \<and>
     (\<forall>k g. UpdateFuncs dc k = Some g \<longrightarrow> (\<forall>s. \<exists>v. g s = Inr v))"
  have dist: "distinct order" and sub: "set order \<subseteq> dom (UpdateFuncs dc)"
    and dom: "set order = dom (UpdateFuncs dc)"
    using h by (auto simp: range_order_def)
  have "\<forall>k\<in>set order. \<forall>g. UpdateFuncs dc k = Some g \<longrightarrow> (\<forall>s. \<exists>v. g s = Inr v)"
    using h by simp
  then have ok: "fst (UpdateContent dc order) = None" by (rule UpdateContent_all_succeed)
  then obtain dc1 where run: "UpdateContent dc order = (None, dc1)"
    by (cases "UpdateContent dc order") auto
  then have dc1: "snd (UpdateContent dc order) = dc1" by simp
  have "UpdateInterval (config dc1) = None"
    using assms(1) UpdateContent_config [of dc order] dc1 by simp
  then have "StartUpdates dc1 = dc1" by (rule StartUpdates_None)
  then have r: "StartAndManageUpdates dc order corder = Some dc1"
    using run by (simp add: StartAndManageUpdates_def)
  have logs: "invoked dc1 = invoked dc @ order" "stored dc1 = stored dc @ order"
    using UpdateContent_ok_logs [OF sub ok] dc1 by simp_all
  have fields: "closeReceivers dc1 = closeReceivers dc" "errorChannel dc1 = errorChannel dc"
    "UpdateFuncs dc1 = UpdateFuncs dc"
    using UpdateContent_closeReceivers [of dc order] UpdateContent_errorChannel [of dc order]
      UpdateContent_UpdateFuncs [of dc order] dc1 by simp_all
  have once: "\<forall>k\<in>dom (UpdateFuncs dc). count_list (invoked dc1) k = count_list (invoked dc) k + 1"
    using dist dom logs(1) by (simp add: distinct_count_list_one)
  have vals: "\<forall>i<length order. \<exists>g v. UpdateFuncs dc (order ! i) = Some g \<and>
            g (data (snd (UpdateContent dc (take i order)))) = Inr v \<and>
            data dc1 (order ! i) = Some v"
    using UpdateContent_ok_values [OF dist sub ok] dc1 by simp
  have frame: "\<forall>k. k \<notin> dom (UpdateFuncs dc) \<longrightarrow> data dc1 k = data dc k"
    using UpdateContent_data_frame [of _ order dc] dom dc1 by auto
  show "\<exists>dc'. StartAndManageUpdates dc order corder = Some dc' \<and>
         invoked dc' = invoked dc @ order \<and>
         (\<forall>k\<in>dom (UpdateFuncs dc). count_list (invoked dc') k = count_list (invoked dc) k + 1) \<and>
         stored dc' = stored dc @ order \<and>
         (\<forall>i<length order. \<exists>g v. UpdateFuncs dc (order ! i) = Some g \<and>
            g (data (snd (UpdateContent dc (take i order)))) = Inr v \<and>
            data dc' (order ! i) = Some v) \<and>
         (\<forall>k. k \<notin> dom (UpdateFuncs dc) \<longrightarrow> data dc' k = data dc k) \<and>
         closeReceivers dc' = closeReceivers dc \<and>
         errorChannel dc' = errorChannel dc \<and>
         UpdateFuncs dc' = UpdateFuncs dc"
    using r logs fields once vals frame by simp
qed

theorem StartUpdates_without_interval_witness:
  "UpdateInterval (config (getTestCache noInterval)) = None \<and>
   UpdateFuncs (getTestCache noInterval) \<noteq> Map.empty \<and>
   range_order (UpdateFuncs (getTestCache noInterval)) [''bool'', ''string'', ''int''] \<and>
   updBool (data (getTestCache noInterval)) = Inr (VBool True) \<and>
   StartUpdates (getTestCache noInterval) = getTestCache noInterval \<and>
   StartAndManageUpdates (getTestCache noInterval) [''bool'', ''string'', ''int''] [] \<noteq> None \<and>
   invoked (the (StartAndManageUpdates (getTestCache noInterval) [''bool'', ''string'', ''int''] []))
     = [''bool'', ''string'', ''int''] \<and>
   Get (the (StartAndManageUpdates (getTestCache noInterval) [''bool'', ''string'', ''int''] []))
     ''bool'' = (VBool True, True) \<and>
   Get (the (StartAndManageUpdates (getTestCache noInterval) [''bool'', ''string'', ''int''] []))
     ''string'' = (VString ''test2'', True) \<and>
   Get (the (StartAndManageUpdates (getTestCache noInterval) [''bool'', ''string'', ''int''] []))
     ''int'' = (VInt 2, True) \<and>
   closeReceivers (the (StartAndManageUpdates (getTestCache noInterval) [''bool'', ''string'', ''int''] []))
     = 0 \<and>
   errorChannel (the (StartAndManageUpdates (getTestCache noInterval) [''bool'', ''string'', ''int''] []))
     = []"
proof -
  note fx = getTestCache_def Set_def Store_def updInt_def updString_def updBool_def
    noInterval_def
  let ?dc = "getTestCache noInterval"
  let ?order = "[''bool'', ''string'', ''int'']"
  have h1: "UpdateInterval (config ?dc) = None" by (simp add: fx)
  have h2: "UpdateFuncs ?dc \<noteq> Map.empty" by (simp add: fx)
  have h3: "range_order (UpdateFuncs ?dc) ?order"
    by (auto simp: range_order_def fx)
  have h4: "\<forall>k g. UpdateFuncs ?dc k = Some g \<longrightarrow> (\<forall>s. \<exists>v. g s = Inr v)"
    by (auto simp: fx split: if_splits)
  have i0: "invoked ?dc = []" "closeReceivers ?dc = 0" "errorChannel ?dc = []"
    by (simp_all add: fx)
  have f: "UpdateFuncs ?dc ''bool'' = Some updBool" "UpdateFuncs ?dc ''string'' = Some updString"
    "UpdateFuncs ?dc ''int'' = Some updInt" by (simp_all add: fx)
  have v: "updBool (data (snd (UpdateContent ?dc (take 0 ?order)))) = Inr (VBool True)"
    "updString (data (snd (UpdateContent ?dc (take 1 ?order)))) = Inr (VString ''test2'')"
    "updInt (data (snd (UpdateContent ?dc (take 2 ?order)))) = Inr (VInt 2)"
    by (simp_all add: fx)
  from StartUpdates_without_interval [OF h1 h2, of ?order "[]"] h3 h4
  obtain dc' where su: "StartUpdates ?dc = ?dc"
    and run: "StartAndManageUpdates ?dc ?order [] = Some dc'"
    and inv: "invoked dc' = invoked ?dc @ ?order"
    and vals: "\<forall>i<length ?order. \<exists>g v. UpdateFuncs ?dc (?order ! i) = Some g \<and>
            g (data (snd (UpdateContent ?dc (take i ?order)))) = Inr v \<and>
            data dc' (?order ! i) = Some v"
    and rest: "closeReceivers dc' = closeReceivers ?dc" "errorChannel dc' = errorChannel ?dc"
    by blast
  from vals [rule_format, of 0] f(1) v(1) have b: "data dc' ''bool'' = Some (VBool True)"
    by auto
  from vals [rule_format, of 1] f(2) v(2) have s: "data dc' ''string'' = Some (VString ''test2'')"
    by auto
  from vals [rule_format, of 2] f(3) v(3) have i: "data dc' ''int'' = Some (VInt 2)"
    by auto
  have v0: "updBool (data ?dc) = Inr (VBool True)" by (simp add: fx)
  show ?thesis using h1 h2 h3 v0 su run inv b s i rest i0 by (simp add: Get_def Load_def)
qed

text \<open>
  C1 as first stated fails, and \<^verbatim>\<open>TestStartUpdates\<close> expects it to: after
  \<^verbatim>\<open>StartUpdates\<close> on the test cache with no interval no update function has been
  called and the key \<^verbatim>\<open>string\<close> still reads \<^verbatim>\<open>test\<close>, not the \<^verbatim>\<open>test2\<close> that its
  function returns.
\<close>

theorem StartUpdates_without_interval_counterexample:
  "UpdateInterval (config (getTestCache noInterval)) = None \<and>
   UpdateFuncs (getTestCache noInterval) ''string'' = Some updString \<and>
   updString (data (getTestCache noInterval)) = Inr (VString ''test2'') \<and>
   invoked (StartUpdates (getTestCache noInterval)) = [] \<and>
   Get (StartUpdates (getTestCache noInterval)) ''string'' = (VString ''test'', True)"
  by (simp add: getTestCache_def updString_def noInterval_def StartUpdates_def Get_def Load_def)

text \<open>
  C9. With an empty registry \<^verbatim>\<open>StartUpdates\<close> returns the cache as it was, whatever the
  interval: no goroutine is left behind, nothing is stored, every key reads as before.
\<close>

theorem StartUpdates_empty_registry:
  "UpdateFuncs dc = Map.empty \<Longrightarrow>
     StartUpdates dc = dc \<and>
     closeReceivers (StartUpdates dc) = closeReceivers dc \<and>
     (\<forall>key. Get (StartUpdates dc) key = Get dc key) \<and>
     stored (StartUpdates dc) = stored dc"
  by (simp add: StartUpdates_def)

theorem StartUpdates_empty_registry_witness:
  "UpdateFuncs (noFuncsTestCache interval20ms) = Map.empty \<and>
   UpdateInterval (config (noFuncsTestCache interval20ms)) = Some 20000000 \<and>
   StartUpdates (noFuncsTestCache interval20ms) = noFuncsTestCache interval20ms \<and>
   closeReceivers (StartUpdates (noFuncsTestCache interval20ms)) = 0 \<and>
   Get (StartUpdates (noFuncsTestCache interval20ms)) ''string'' = (VString ''test'', True) \<and>
   Get (StartUpdates (noFuncsTestCache interval20ms)) ''int'' = (VInt 1, True) \<and>
   Get (StartUpdates (noFuncsTestCache interval20ms)) ''bool'' = (VBool False, True)"
proof -
  note fx = getTestCache_def interval20ms_def
  have h: "UpdateFuncs (noFuncsTestCache interval20ms) = Map.empty"
    by (simp add: noFuncsTestCache_def)
  have g: "Get (noFuncsTestCache interval20ms) ''string'' = (VString ''test'', True)"
    "Get (noFuncsTestCache interval20ms) ''int'' = (VInt 1, True)"
    "Get (noFuncsTestCache interval20ms) ''bool'' = (VBool False, True)"
    "closeReceivers (noFuncsTestCache interval20ms) = 0"
    "UpdateInterval (config (noFuncsTestCache interval20ms)) = Some 20000000"
    by (simp_all add: noFuncsTestCache_def fx Get_def Load_def)
  from StartUpdates_empty_registry [OF h] h g show ?thesis by simp
qed

section \<open>Closing\<close>

text \<open>Facts about the loop of \<^verbatim>\<open>Close\<close> and about its three outcomes.\<close>

lemma Close_range_data:
  "data (Close_range dc xs) k = (if k \<in> set xs then Some (VString '''') else data dc k)"
  by (induction xs arbitrary: dc) (auto simp: Store_def)

lemma Close_range_stored: "stored (Close_range dc xs) = stored dc @ xs"
  by (induction xs arbitrary: dc) (auto simp: Store_def)

lemma Close_range_fields [simp]:
  "config (Close_range dc xs) = config dc"
  "UpdateFuncs (Close_range dc xs) = UpdateFuncs dc"
  "closeReceivers (Close_range dc xs) = closeReceivers dc"
  "errorChannel (Close_range dc xs) = errorChannel dc"
  "invoked (Close_range dc xs) = invoked dc"
  by (induction xs arbitrary: dc) (auto simp: Store_def)

lemma Close_None: "UpdateInterval (config dc) = None \<Longrightarrow> Close dc order = Some dc"
  by (simp add: Close_def)

lemma Close_blocks:
  "UpdateInterval (config dc) = Some d \<Longrightarrow> closeReceivers dc = 0 \<Longrightarrow> Close dc order = None"
  by (simp add: Close_def)

lemma Close_running:
  "UpdateInterval (config dc) = Some d \<Longrightarrow> 0 < closeReceivers dc \<Longrightarrow>
     Close dc order =
       Some ((Close_range (dc\<lparr>closeReceivers := closeReceivers dc - 1\<rparr>) order)
               \<lparr>UpdateFuncs := Map.empty\<rparr>)"
  by (simp add: Close_def)

text \<open>
  C4 (as amended). On a cache with an update interval whose goroutine is running (there
  is a receiver for the stop signal), \<^verbatim>\<open>Close\<close> returns, leaves every key of the
  registry holding the empty string, and leaves the registry empty. On a cache with no
  update interval \<^verbatim>\<open>Close\<close> returns the cache as it was: data and registry unchanged.
\<close>

theorem Close_resets_running_cache:
  "(\<forall>d. UpdateInterval (config dc) = Some d \<and> 0 < closeReceivers dc \<and>
        range_order (UpdateFuncs dc) order \<longrightarrow>
      (\<exists>dc'. Close dc order = Some dc' \<and>
         (\<forall>k\<in>dom (UpdateFuncs dc). data dc' k = Some (VString '''')) \<and>
         UpdateFuncs dc' = Map.empty)) \<and>
   (UpdateInterval (config dc) = None \<longrightarrow>
      Close dc order = Some dc)"
  by (auto simp: Close_running Close_None Close_range_data range_order_def)

theorem Close_resets_running_cache_witness:
  "UpdateInterval (config (StartUpdates (getTestCache interval20ms))) = Some 20000000 \<and>
   0 < closeReceivers (StartUpdates (getTestCache interval20ms)) \<and>
   range_order (UpdateFuncs (StartUpdates (getTestCache interval20ms))) [''int'', ''bool'', ''string''] \<and>
   Close (StartUpdates (getTestCache interval20ms)) [''int'', ''bool'', ''string''] \<noteq> None \<and>
   data (the (Close (StartUpdates (getTestCache interval20ms)) [''int'', ''bool'', ''string''])) ''int''
     = Some (VString '''') \<and>
   UpdateFuncs (the (Close (StartUpdates (getTestCache interval20ms)) [''int'', ''bool'', ''string'']))
     = Map.empty \<and>
   UpdateInterval (config (StartUpdates (getTestCache noInterval))) = None \<and>
   Close (StartUpdates (getTestCache noInterval)) [''int'', ''bool'', ''string''] =
     Some (StartUpdates (getTestCache noInterval))"
proof -
  note fx = getTestCache_def interval20ms_def noInterval_def StartUpdates_def
  let ?dc = "StartUpdates (getTestCache interval20ms)"
  let ?dn = "StartUpdates (getTestCache noInterval)"
  let ?order = "[''int'', ''bool'', ''string'']"
  have cfg: "UpdateInterval (config ?dc) = Some 20000000"
    by (simp add: fx)
  have rcv: "0 < closeReceivers ?dc"
    by (simp add: fx)
  have ord: "range_order (UpdateFuncs ?dc) ?order"
    by (auto simp: range_order_def fx)
  have int: "''int'' \<in> dom (UpdateFuncs ?dc)"
    by (simp add: fx)
  have nil: "UpdateInterval (config ?dn) = None"
    by (simp add: fx)
  from Close_resets_running_cache [of ?dc ?order] cfg rcv ord
  obtain dc' where "Close ?dc ?order = Some dc'"
    and "\<forall>k\<in>dom (UpdateFuncs ?dc). data dc' k = Some (VString '''')"
    and "UpdateFuncs dc' = Map.empty"
    by blast
  moreover from Close_resets_running_cache [of ?dn ?order] nil
  have "Close ?dn ?order = Some ?dn" by blast
  ultimately show ?thesis using cfg rcv ord int nil by auto
qed

text \<open>
  C4 as first stated fails on a cache with an interval on which nothing was started:
  the send on \<^verbatim>\<open>dc.close\<close> has no receiver, so \<^verbatim>\<open>Close\<close> never reaches its reset loop
  and no stored value is reset.
\<close>

theorem Close_resets_running_cache_counterexample:
  "UpdateInterval (config (getTestCache interval20ms)) = Some 20000000 \<and>
   0 < sint (20000000 :: Duration) \<and>
   range_order (UpdateFuncs (getTestCache interval20ms)) [''int'', ''bool'', ''string''] \<and>
   closeReceivers (getTestCache interval20ms) = 0 \<and>
   Close (getTestCache interval20ms) [''int'', ''bool'', ''string''] = None"
  by (auto simp: range_order_def getTestCache_def interval20ms_def Close_def)

text \<open>
  C10 (as amended). On a cache with an update interval whose goroutine is running,
  \<^verbatim>\<open>Close\<close> returns and leaves every key of the registry reading as found with the
  string \<^verbatim>\<open>""\<close>, whatever it held before, also a registered key that had never been
  written; every key that is not in the registry reads as before.
\<close>

theorem Close_stores_empty_string:
  assumes "UpdateInterval (config dc) = Some d" and "0 < closeReceivers dc"
    and "range_order (UpdateFuncs dc) order"
  shows "\<exists>dc'. Close dc order = Some dc' \<and>
           (\<forall>k\<in>dom (UpdateFuncs dc). Get dc' k = (VString '''', True)) \<and>
           (\<forall>k. k \<notin> dom (UpdateFuncs dc) \<longrightarrow> Get dc' k = Get dc k)"
  using assms
  by (auto simp: Close_running Close_range_data range_order_def Get_def Load_def)

theorem Close_stores_empty_string_witness:
  "UpdateInterval (config startedTestCache) = Some 20000000 \<and>
   0 < closeReceivers startedTestCache \<and>
   range_order (UpdateFuncs startedTestCache) [''fresh_key'', ''int'', ''bool'', ''string''] \<and>
   Get startedTestCache ''fresh_key'' = (VNil, False) \<and>
   Get startedTestCache ''int'' = (VInt 1, True) \<and>
   Get startedTestCache ''unregistered'' = (VInt 7, True) \<and>
   Close startedTestCache [''fresh_key'', ''int'', ''bool'', ''string''] \<noteq> None \<and>
   Get (the (Close startedTestCache [''fresh_key'', ''int'', ''bool'', ''string''])) ''fresh_key''
     = (VString '''', True) \<and>
   Get (the (Close startedTestCache [''fresh_key'', ''int'', ''bool'', ''string''])) ''int''
     = (VString '''', True) \<and>
   Get (the (Close startedTestCache [''fresh_key'', ''int'', ''bool'', ''string''])) ''unregistered''
     = (VInt 7, True)"
proof -
  note fx = startedTestCache_def getTestCache_def AddUpdateFunc_def Set_def Store_def
    interval20ms_def StartUpdates_def
  let ?dc = "startedTestCache"
  let ?order = "[''fresh_key'', ''int'', ''bool'', ''string'']"
  have cfg: "UpdateInterval (config ?dc) = Some 20000000"
    by (simp add: fx)
  have rcv: "0 < closeReceivers ?dc"
    by (simp add: fx)
  have ord: "range_order (UpdateFuncs ?dc) ?order"
    by (auto simp: range_order_def fx)
  have reg: "''fresh_key'' \<in> dom (UpdateFuncs ?dc)" "''int'' \<in> dom (UpdateFuncs ?dc)"
    "''unregistered'' \<notin> dom (UpdateFuncs ?dc)"
    by (simp_all add: fx)
  have old: "Get ?dc ''fresh_key'' = (VNil, False)" "Get ?dc ''int'' = (VInt 1, True)"
    "Get ?dc ''unregistered'' = (VInt 7, True)"
    by (simp_all add: fx Get_def Load_def)
  from Close_stores_empty_string [OF cfg rcv ord]
  obtain dc' where "Close ?dc ?order = Some dc'"
    and "\<forall>k\<in>dom (UpdateFuncs ?dc). Get dc' k = (VString '''', True)"
    and "\<forall>k. k \<notin> dom (UpdateFuncs ?dc) \<longrightarrow> Get dc' k = Get ?dc k"
    by blast
  then show ?thesis using cfg rcv ord reg old by auto
qed

text \<open>
  C10 as first stated fails on a cache with an interval on which nothing was started:
  \<^verbatim>\<open>Close\<close> blocks at the send, and the registered key that was never written is
  never given the value \<^verbatim>\<open>""\<close>.
\<close>

theorem Close_stores_empty_string_counterexample:
  "UpdateInterval (config (AddUpdateFunc (getTestCache interval20ms) ''fresh_key'' updInt))
     = Some 20000000 \<and>
   UpdateFuncs (AddUpdateFunc (getTestCache interval20ms) ''fresh_key'' updInt) ''fresh_key''
     = Some updInt \<and>
   Get (AddUpdateFunc (getTestCache interval20ms) ''fresh_key'' updInt) ''fresh_key''
     = (VNil, False) \<and>
   Close (AddUpdateFunc (getTestCache interval20ms) ''fresh_key'' updInt)
     [''fresh_key'', ''int'', ''bool'', ''string''] = None"
  by (simp add: getTestCache_def AddUpdateFunc_def interval20ms_def Close_def Get_def Load_def)

text \<open>
  C7. The code run where the claim wants a call of \<^verbatim>\<open>Close\<close> that returns without
  blocking, on the test cache with an interval: \<^verbatim>\<open>Close\<close> before any \<^verbatim>\<open>StartUpdates\<close>,
  \<^verbatim>\<open>Close\<close> on the cache fresh from \<^verbatim>\<open>NewCache\<close>, the second of two calls of
  \<^verbatim>\<open>Close\<close> after \<^verbatim>\<open>StartUpdates\<close>, and \<^verbatim>\<open>Close\<close> after the goroutine has returned on
  cancellation of its context. In each of them the send on \<^verbatim>\<open>dc.close\<close> has no receiver
  and the call does not return. On the test cache with no interval \<^verbatim>\<open>Close\<close> returns the
  cache as it was, which is what the claim wants of every cache.
\<close>

theorem Close_without_receiver_blocks:
  "UpdateInterval (config (getTestCache interval20ms)) = Some 20000000 \<and>
   closeReceivers (getTestCache interval20ms) = 0 \<and>
   Close (getTestCache interval20ms) [''string'', ''int'', ''bool''] = None \<and>
   Close (projr (NewCache interval20ms)) [] = None \<and>
   Close (StartUpdates (getTestCache interval20ms)) [''string'', ''int'', ''bool''] \<noteq> None \<and>
   Close (the (Close (StartUpdates (getTestCache interval20ms)) [''string'', ''int'', ''bool'']))
     [] = None \<and>
   Close (CtxDone (StartUpdates (getTestCache interval20ms))) [''string'', ''int'', ''bool'']
     = None \<and>
   Close (getTestCache noInterval) [''string'', ''int'', ''bool''] = Some (getTestCache noInterval)"
  by (simp add: getTestCache_def interval20ms_def noInterval_def NewCache_def Close_def
    StartUpdates_def CtxDone_def Store_def)

text \<open>
  C5. The code run at a cache with an interval, a failing update function and no
  goroutine started, which is the state in which a host calls
  \<^verbatim>\<open>StartAndManageUpdates\<close>: the first cycle fails, the error is sent, and the call of
  \<^verbatim>\<open>Close\<close> that follows blocks at its send, since the goroutine that would receive is
  only started further down. The cache is not reset and the call does not return.
\<close>

theorem StartAndManageUpdates_failure_blocks:
  "UpdateInterval (config (errorTestCache interval20ms)) = Some 20000000 \<and>
   closeReceivers (errorTestCache interval20ms) = 0 \<and>
   fst (UpdateContent (errorTestCache interval20ms)
          [''string'', ''error_update_func'', ''int'', ''bool'']) =
     Some ''failed to update search cache for error_update_func. error: unexpected error'' \<and>
   StartAndManageUpdates (errorTestCache interval20ms)
     [''string'', ''error_update_func'', ''int'', ''bool'']
     [''string'', ''error_update_func'', ''int'', ''bool''] = None"
  by (simp add: errorTestCache_def getTestCache_def AddUpdateFunc_def Set_def Store_def updInt_def
    updString_def updBool_def updError_def updateError_def interval20ms_def
    StartAndManageUpdates_def Close_def)

section \<open>Reading\<close>

text \<open>
  No operation deletes from \<^verbatim>\<open>data\<close>, and every write to it goes through
  \<^verbatim>\<open>dc.data.Store\<close>: in every cache a host can hold, the keys present in \<^verbatim>\<open>data\<close> are
  the keys of the calls of \<^verbatim>\<open>Store\<close> so far.
\<close>

lemma Store_logged:
  "dom (data dc) = set (stored dc) \<Longrightarrow> dom (data (Store dc key v)) = set (stored (Store dc key v))"
  by (auto simp: Store_def)

lemma UpdateContent_logged:
  "dom (data dc) = set (stored dc) \<Longrightarrow>
     dom (data (snd (UpdateContent dc xs))) = set (stored (snd (UpdateContent dc xs)))"
proof (induction xs arbitrary: dc)
  case Nil
  then show ?case by simp
next
  case (Cons k ks)
  show ?case
  proof (cases "UpdateFuncs dc k")
    case None
    then show ?thesis using Cons by simp
  next
    case (Some f)
    show ?thesis
    proof (cases "f (data dc)")
      case (Inl e)
      then show ?thesis using Some Cons.prems by simp
    next
      case (Inr v)
      let ?dc = "Set (dc\<lparr>invoked := invoked dc @ [k]\<rparr>) k v"
      have "dom (data ?dc) = set (stored ?dc)"
        using Cons.prems by (auto simp: Set_def Store_def)
      then have "dom (data (snd (UpdateContent ?dc ks))) = set (stored (snd (UpdateContent ?dc ks)))"
        by (rule Cons.IH)
      then show ?thesis using Some Inr by simp
    qed
  qed
qed

lemma Close_range_logged:
  "dom (data dc) = set (stored dc) \<Longrightarrow>
     dom (data (Close_range dc xs)) = set (stored (Close_range dc xs))"
  by (induction xs arbitrary: dc) (auto simp: Store_def)

lemma Close_logged:
  "dom (data dc) = set (stored dc) \<Longrightarrow> Close dc order = Some dc' \<Longrightarrow>
     dom (data dc') = set (stored dc')"
proof -
  assume inv: "dom (data dc) = set (stored dc)" and c: "Close dc order = Some dc'"
  show ?thesis
  proof (cases "UpdateInterval (config dc)")
    case None
    then show ?thesis using inv c by (simp add: Close_def)
  next
    case (Some d)
    let ?dc = "dc\<lparr>closeReceivers := closeReceivers dc - 1\<rparr>"
    have "dom (data ?dc) = set (stored ?dc)" using inv by simp
    then have "dom (data (Close_range ?dc order)) = set (stored (Close_range ?dc order))"
      by (rule Close_range_logged)
    moreover have "dc' = (Close_range ?dc order)\<lparr>UpdateFuncs := Map.empty\<rparr>"
      using Some c by (simp add: Close_def split: if_splits)
    ultimately show ?thesis by simp
  qed
qed

lemma Tick_logged:
  "dom (data dc) = set (stored dc) \<Longrightarrow> dom (data (Tick dc order)) = set (stored (Tick dc order))"
proof -
  assume inv: "dom (data dc) = set (stored dc)"
  obtain e dc1 where run: "UpdateContent dc order = (e, dc1)" by (cases "UpdateContent dc order")
  have "dom (data dc1) = set (stored dc1)"
    using UpdateContent_logged [OF inv, of order] run by simp
  then show ?thesis using run by (cases e) (simp_all add: Tick_def)
qed

lemma StartUpdates_logged:
  "dom (data dc) = set (stored dc) \<Longrightarrow>
     dom (data (StartUpdates dc)) = set (stored (StartUpdates dc))"
  by (auto simp: StartUpdates_def split: option.splits)

lemma StartAndManageUpdates_logged:
  assumes "dom (data dc) = set (stored dc)"
    and "StartAndManageUpdates dc order corder = Some dc'"
  shows "dom (data dc') = set (stored dc')"
proof -
  obtain e dc1 where run: "UpdateContent dc order = (e, dc1)" by (cases "UpdateContent dc order")
  have inv1: "dom (data dc1) = set (stored dc1)"
    using UpdateContent_logged [OF assms(1), of order] run by simp
  show ?thesis
  proof (cases e)
    case None
    then have "dc' = StartUpdates dc1" using assms(2) run by (simp add: StartAndManageUpdates_def)
    then show ?thesis using StartUpdates_logged [OF inv1] by simp
  next
    case (Some err)
    let ?dc = "dc1\<lparr>errorChannel := errorChannel dc1 @ [err]\<rparr>"
    have "Close ?dc corder = Some dc'"
      using assms(2) run Some by (simp add: StartAndManageUpdates_def)
    moreover have "dom (data ?dc) = set (stored ?dc)" using inv1 by simp
    ultimately show ?thesis using Close_logged by blast
  qed
qed

lemma reachable_logged: "reachable dc \<Longrightarrow> dom (data dc) = set (stored dc)"
proof (induction rule: reachable.induct)
  case (r_new cfg dc)
  then show ?case by (auto simp: NewCache_def Let_def split: option.splits if_splits)
next
  case (r_set dc key v)
  then show ?case by (simp add: Set_def Store_logged)
next
  case (r_add dc key updateFunc)
  then show ?case by (simp add: AddUpdateFunc_def)
next
  case (r_update dc order)
  then show ?case by (simp add: UpdateContent_logged)
next
  case (r_close dc order dc')
  then show ?case using Close_logged by blast
next
  case (r_start dc)
  then show ?case by (simp add: StartUpdates_logged)
next
  case (r_manage dc order corder dc')
  then show ?case using StartAndManageUpdates_logged by blast
next
  case (r_tick dc order)
  then show ?case by (simp add: Tick_logged)
next
  case (r_ctx dc)
  then show ?case by (simp add: CtxDone_def)
qed

lemma getTestCache_built:
  "NewCache cfg = Inr dc0 \<Longrightarrow>
     getTestCache cfg =
       AddUpdateFunc (AddUpdateFunc (AddUpdateFunc
         (Set (Set (Set dc0 ''string'' (VString ''test'')) ''int'' (VInt 1)) ''bool'' (VBool False))
         ''string'' updString) ''int'' updInt) ''bool'' updBool"
  by (auto simp: NewCache_def Let_def getTestCache_def AddUpdateFunc_def Set_def Store_def
           split: option.splits if_splits)

lemma reachable_getTestCache: "NewCache cfg = Inr dc0 \<Longrightarrow> reachable (getTestCache cfg)"
  by (simp only: getTestCache_built) (intro reachable.intros(2,3), erule reachable.intros(1))

text \<open>
  C8. In every cache a host can hold, \<^verbatim>\<open>Get\<close> reports a key as not found exactly when
  no value was ever stored for it, be it by \<^verbatim>\<open>Set\<close>, by a refresh cycle or by the reset
  of \<^verbatim>\<open>Close\<close>; on the cache that \<^verbatim>\<open>NewCache\<close> returns, \<^verbatim>\<open>Get\<close> reports every key as not
  found (with the nil value).
\<close>

theorem Get_not_found_iff_never_stored:
  "(reachable dc \<longrightarrow> (snd (Get dc key) = False \<longleftrightarrow> key \<notin> set (stored dc))) \<and>
   (NewCache cfg = Inr dc0 \<longrightarrow> Get dc0 key = (VNil, False))"
proof (intro conjI impI)
  assume "reachable dc"
  then have "dom (data dc) = set (stored dc)" by (rule reachable_logged)
  then have "key \<notin> set (stored dc) \<longleftrightarrow> data dc key = None" by auto
  then show "snd (Get dc key) = False \<longleftrightarrow> key \<notin> set (stored dc)"
    by (simp add: Get_def Load_def split: option.splits)
next
  assume "NewCache cfg = Inr dc0"
  then show "Get dc0 key = (VNil, False)"
    by (auto simp: NewCache_def Let_def Get_def Load_def split: option.splits if_splits)
qed

theorem Get_not_found_iff_never_stored_witness:
  "reachable (getTestCache interval20ms) \<and>
   Get (getTestCache interval20ms) ''int'' = (VInt 1, True) \<and>
   ''int'' \<in> set (stored (getTestCache interval20ms)) \<and>
   snd (Get (getTestCache interval20ms) ''float'') = False \<and>
   ''float'' \<notin> set (stored (getTestCache interval20ms)) \<and>
   NewCache interval20ms \<noteq> Inl ''cache update interval duration is less than or equal to 0'' \<and>
   Get (projr (NewCache interval20ms)) ''int'' = (VNil, False)"
proof -
  obtain dc0 where new: "NewCache interval20ms = Inr dc0"
    by (simp add: NewCache_def interval20ms_def)
  have r: "reachable (getTestCache interval20ms)" using new by (rule reachable_getTestCache)
  have s: "''int'' \<in> set (stored (getTestCache interval20ms))"
    "''float'' \<notin> set (stored (getTestCache interval20ms))"
    "Get (getTestCache interval20ms) ''int'' = (VInt 1, True)"
    by (simp_all add: getTestCache_def Get_def Load_def)
  from Get_not_found_iff_never_stored [of "getTestCache interval20ms" "''float''" interval20ms dc0] r s
  have a: "snd (Get (getTestCache interval20ms) ''float'') = False" by blast
  from Get_not_found_iff_never_stored [of "getTestCache interval20ms" "''int''" interval20ms dc0] new
  have b: "Get dc0 ''int'' = (VNil, False)" by blast
  show ?thesis using r s a b new by simp
qed

end
